theory Spec2Isabelle
  imports Main "HOL-Library.Sublist"
begin

section \<open>The encoding patcher \<^verbatim>\<open>fix_encoding.py\<close>\<close>

text \<open>
  The script reads one Java source file, applies two literal substitutions to its text and
  writes the text back:
  \<^verbatim>\<open>
  with open('src/main/java/converter/Main.java', 'r', encoding='utf-8') as f:
      content = f.read()
  content = content.replace(A, R)
  content = content.replace(B, R)
  with open('src/main/java/converter/Main.java', 'w', encoding='utf-8') as f:
      f.write(content)
  print("Fixed encoding issues in Main.java")
  \<close>
  A Python string is a sequence of Unicode code points, so a string is modelled as a list of
  code points (natural numbers), not as a list of bytes. A file is modelled by the characters
  it holds, line ends as they are stored. Text mode translates the line ends on reading and on
  writing, and the model does so too. The codec is not modelled: the file's characters are
  those that its bytes decode to, a file that the codec rejects is outside the model, and the
  encoding that an \<^verbatim>\<open>open\<close> is given is recorded with the call.
\<close>

subsection \<open>Strings\<close>

type_synonym codepoint = nat
type_synonym str = "codepoint list"

text \<open>Code points of a string of ASCII characters.\<close>

definition ascii :: "string \<Rightarrow> str" where
  "ascii s = map of_char s"

text \<open>
  \<^verbatim>\<open>str.replace(old, new)\<close>: scanning from the left, every occurrence of
  \<open>old\<close> that does not overlap an earlier replaced occurrence is replaced by
  \<open>new\<close>. For an empty \<open>old\<close> Python inserts \<open>new\<close> before every
  character and at the end.
\<close>

function replace :: "'a list \<Rightarrow> 'a list \<Rightarrow> 'a list \<Rightarrow> 'a list" where
  "replace old new [] = (if old = [] then new else [])"
| "replace old new (c # s) =
     (if old = [] then new @ c # replace old new s
      else if prefix old (c # s) then new @ replace old new (drop (length old) (c # s))
      else c # replace old new s)"
  by pat_completeness auto
termination
  by (relation "measure (\<lambda>(old, new, s). length s)") auto

text \<open>
  The three literals of the script. Code points: \<open>34\<close> is the double quote,
  \<open>92\<close> the backslash, \<open>226\<close> is U+00E2, \<open>8364\<close> is U+20AC and
  \<open>8212\<close> is U+2014, the em-dash. The Python literal for the replacement writes the backslash
  doubled, so the string holds one backslash followed by \<open>u2014\<close>: six characters, not
  an em-dash.
\<close>

definition pattern_A :: str where
  "pattern_A = ascii ''indexOf('' @ [34, 226, 8364, 34, 34] @ ascii '')''"

definition pattern_B :: str where
  "pattern_B = ascii ''indexOf('' @ [34, 8212, 34] @ ascii '')''"

definition replacement :: str where
  "replacement = ascii ''indexOf('' @ [34, 92] @ ascii ''u2014'' @ [34] @ ascii '')''"

text \<open>Lines 8 and 9 of the script: substitution A, then substitution B.\<close>

definition fix_content :: "str \<Rightarrow> str" where
  "fix_content content =
     (let content = replace pattern_A replacement content;
          content = replace pattern_B replacement content
      in content)"

text \<open>
  The number of positions of \<open>s\<close> at which \<open>p\<close> occurs (an occurrence may
  overlap another one).
\<close>

fun occurrences :: "'a list \<Rightarrow> 'a list \<Rightarrow> nat" where
  "occurrences p [] = (if p = [] then 1 else 0)"
| "occurrences p (c # s) = (if prefix p (c # s) then 1 else 0) + occurrences p s"


subsection \<open>Text mode\<close>

text \<open>
  \<^verbatim>\<open>os.linesep\<close>: the line feed on POSIX, carriage return and line feed on
  Windows (code points \<open>13\<close> and \<open>10\<close>).
\<close>

datatype platform = Posix | Windows

fun linesep :: "platform \<Rightarrow> str" where
  "linesep Posix = [10]"
| "linesep Windows = [13, 10]"

text \<open>
  Both opens leave \<^verbatim>\<open>newline\<close> at its default. Reading then translates every
  line end to a line feed, as the text layer does it:
  \<^verbatim>\<open>output.replace("\r\n", "\n").replace("\r", "\n")\<close>.
\<close>

definition universal_newlines :: "str \<Rightarrow> str" where
  "universal_newlines s = replace [13] [10] (replace [13, 10] [10] s)"

text \<open>
  Writing translates every line feed to the line separator of the platform, unless that is the
  line feed itself: \<^verbatim>\<open>text.replace("\n", os.linesep)\<close>.
\<close>

definition write_newlines :: "platform \<Rightarrow> str \<Rightarrow> str" where
  "write_newlines pf s = (if linesep pf = [10] then s else replace [10] (linesep pf) s)"

subsection \<open>Files and standard output\<close>

datatype OSError = FileNotFoundError | PermissionError

text \<open>A file: the characters stored in it, and whether the process may read and write it.\<close>

record textfile =
  raw :: str
  readable :: bool
  writable :: bool

text \<open>What \<^verbatim>\<open>f.read()\<close> returns for a file opened in text mode.\<close>

definition data :: "textfile \<Rightarrow> str" where
  "data f = universal_newlines (raw f)"

text \<open>A successful call of \<^verbatim>\<open>open\<close>: path, mode and encoding.\<close>

type_synonym open_call = "string \<times> string \<times> string"

text \<open>
  The world of a run: the files by path, what was printed so far, the platform, and the
  calls of \<^verbatim>\<open>open\<close> that succeeded so far, in order.
\<close>

record world =
  files :: "string \<rightharpoonup> textfile"
  stdout :: str
  platform :: platform
  opened :: "open_call list"

definition target :: string where
  "target = ''src/main/java/converter/Main.java''"

text \<open>
  \<^verbatim>\<open>with open(p, 'r', encoding=enc) as f: f.read()\<close>: opening a path that does
  not exist or may not be read raises, and nothing is changed.
\<close>

definition read_file :: "world \<Rightarrow> string \<Rightarrow> string \<Rightarrow> (OSError + str) \<times> world" where
  "read_file w p enc =
     (case files w p of
        None \<Rightarrow> (Inl FileNotFoundError, w)
      | Some f \<Rightarrow>
          if readable f then (Inr (data f), w\<lparr>opened := opened w @ [(p, ''r'', enc)]\<rparr>)
          else (Inl PermissionError, w))"

text \<open>The value of lines 4 and 5 of the script for a path: the text read, or the error.\<close>

definition read_text :: "world \<Rightarrow> string \<Rightarrow> OSError + str" where
  "read_text w p = fst (read_file w p ''utf-8'')"

text \<open>
  \<^verbatim>\<open>with open(p, 'w', encoding=enc) as f: f.write(s)\<close>: opening for writing
  creates the file when it does not exist and truncates it when it does; a file that may not
  be written raises at the open, before anything is truncated.
\<close>

definition write_file :: "world \<Rightarrow> string \<Rightarrow> string \<Rightarrow> str \<Rightarrow> (OSError + unit) \<times> world" where
  "write_file w p enc s =
     (case files w p of
        None \<Rightarrow>
          (Inr (),
           w\<lparr>files := (files w)(p \<mapsto>
                 \<lparr>raw = write_newlines (platform w) s, readable = True, writable = True\<rparr>),
             opened := opened w @ [(p, ''w'', enc)]\<rparr>)
      | Some f \<Rightarrow>
          if writable f
          then (Inr (),
                w\<lparr>files := (files w)(p \<mapsto> f\<lparr>raw := write_newlines (platform w) s\<rparr>),
                  opened := opened w @ [(p, ''w'', enc)]\<rparr>)
          else (Inl PermissionError, w))"

text \<open>\<^verbatim>\<open>print(s)\<close> writes the string and a newline (code point 10).\<close>

definition print :: "world \<Rightarrow> str \<Rightarrow> world" where
  "print w s = w\<lparr>stdout := stdout w @ s @ [10]\<rparr>"

definition message :: str where
  "message = ascii ''Fixed encoding issues in Main.java''"

text \<open>
  The module body. An exception of either \<^verbatim>\<open>open\<close> is not caught: the run ends
  there, with the world as the steps before it left it.
\<close>

definition main :: "world \<Rightarrow> (OSError + unit) \<times> world" where
  "main w =
     (case read_file w target ''utf-8'' of
        (Inl e, w) \<Rightarrow> (Inl e, w)
      | (Inr content, w) \<Rightarrow>
          (case write_file w target ''utf-8'' (fix_content content) of
             (Inl e, w) \<Rightarrow> (Inl e, w)
           | (Inr u, w) \<Rightarrow> (Inr (), print w message)))"


subsection \<open>Concrete inputs\<close>

text \<open>
  The example lines of the specification: a call with the corrupted sequence, a call with the
  em-dash itself, the lines they become, and a line with neither pattern.
\<close>

definition scenario_1_input :: str where
  "scenario_1_input = ascii ''if (line.indexOf('' @ [34, 226, 8364, 34, 34] @ ascii '')  >= 0)''"

definition scenario_1_output :: str where
  "scenario_1_output =
     ascii ''if (line.indexOf('' @ [34, 92] @ ascii ''u2014'' @ [34] @ ascii '')  >= 0)''"

definition scenario_2_input :: str where
  "scenario_2_input = ascii ''int idx = text.indexOf('' @ [34, 8212, 34] @ ascii '');''"

definition scenario_2_output :: str where
  "scenario_2_output =
     ascii ''int idx = text.indexOf('' @ [34, 92] @ ascii ''u2014'' @ [34] @ ascii '');''"

definition scenario_3_input :: str where
  "scenario_3_input = ascii ''System.out.println('' @ [34] @ ascii ''hello'' @ [34] @ ascii '');''"

text \<open>
  A POSIX world that holds only the target file, with nothing printed and nothing opened yet;
  a Windows world that holds a second file, earlier output and an earlier open as well; a
  world without the target file; worlds whose target file may not be read, or not be written.
\<close>

definition plain_world :: "str \<Rightarrow> world" where
  "plain_world s =
     \<lparr>files = [target \<mapsto> \<lparr>raw = s, readable = True, writable = True\<rparr>],
      stdout = [], platform = Posix, opened = []\<rparr>"

definition busy_world :: "str \<Rightarrow> world" where
  "busy_world s =
     \<lparr>files = [''pom.xml'' \<mapsto> \<lparr>raw = ascii ''<project/>'', readable = True, writable = False\<rparr>,
               target \<mapsto> \<lparr>raw = s, readable = True, writable = True\<rparr>],
      stdout = ascii ''building'' @ [10], platform = Windows,
      opened = [(''pom.xml'', ''r'', ''utf-8'')]\<rparr>"

definition empty_world :: world where
  "empty_world = \<lparr>files = Map.empty, stdout = [], platform = Posix, opened = []\<rparr>"

definition locked_world :: world where
  "locked_world =
     \<lparr>files = [target \<mapsto> \<lparr>raw = scenario_2_input, readable = False, writable = True\<rparr>],
      stdout = [], platform = Posix, opened = []\<rparr>"


section \<open>Properties of \<open>replace\<close>\<close>

subsection \<open>Single steps\<close>

lemma replace_step_no:
  "p \<noteq> [] \<Longrightarrow> \<not> prefix p (c # s) \<Longrightarrow> replace p r (c # s) = c # replace p r s"
  by simp

lemma prefix_split: "prefix p xs \<Longrightarrow> xs = p @ drop (length p) xs"
  by (auto simp: prefix_def)

text \<open>Where the pattern does not occur, nothing is replaced.\<close>

lemma replace_none: "occurrences p s = 0 \<Longrightarrow> replace p r s = s"
  by (induction p r s rule: replace.induct) (auto split: if_splits)

subsection \<open>Patterns whose first character occurs nowhere else in them\<close>

text \<open>
  Each of the three literals starts with the letter \<open>i\<close> and has no other \<open>i\<close>.
  A pattern \<open>h # tp\<close> of this shape cannot start inside a stretch \<open>t\<close> that is
  free of \<open>h\<close>, so the scan passes such a stretch unchanged.
\<close>

lemma replace_skip:
  "h \<notin> set t \<Longrightarrow> replace (h # tp) r (t @ X) = t @ replace (h # tp) r X"
  by (induction t) auto

lemma occurrences_skip:
  "h \<notin> set t \<Longrightarrow> occurrences (h # tp) (t @ X) = occurrences (h # tp) X"
  by (induction t) auto

lemma replace_block:
  "h \<notin> set tq \<Longrightarrow> \<not> prefix (h # tp) ((h # tq) @ X) \<Longrightarrow>
   replace (h # tp) r ((h # tq) @ X) = (h # tq) @ replace (h # tp) r X"
  using replace_skip [of h tq tp r X] by simp

lemma occurrences_block:
  "h \<notin> set tq \<Longrightarrow>
   occurrences (h # tp) ((h # tq) @ X) =
     (if prefix (h # tp) ((h # tq) @ X) then 1 else 0) + occurrences (h # tp) X"
  using occurrences_skip [of h tq tp X] by simp

text \<open>
  The text before the first \<open>h\<close> is the same before and after a replacement, because
  pattern and replacement both start with \<open>h\<close>. So a pattern with \<open>h\<close> only at its
  head matches at a copied position of the result exactly when it matched there in the input.
\<close>

lemma takeWhile_replace:
  "takeWhile (\<lambda>c. c \<noteq> h) (replace (h # tp) (h # tr) s) = takeWhile (\<lambda>c. c \<noteq> h) s"
  by (induction "h # tp" "h # tr" s rule: replace.induct) auto

lemma prefix_takeWhile_neq:
  "h \<notin> set t \<Longrightarrow> prefix t (takeWhile (\<lambda>c. c \<noteq> h) xs) = prefix t xs"
proof (induction t arbitrary: xs)
  case Nil
  then show ?case by simp
next
  case (Cons a t)
  then show ?case by (cases xs) auto
qed

lemma prefix_replace:
  assumes "h \<notin> set tq"
  shows "prefix (h # tq) (c # replace (h # tp) (h # tr) s) = prefix (h # tq) (c # s)"
proof -
  have "prefix tq (replace (h # tp) (h # tr) s) = prefix tq s"
    using prefix_takeWhile_neq [OF assms, of "replace (h # tp) (h # tr) s"]
      prefix_takeWhile_neq [OF assms, of s] takeWhile_replace [of h tp tr s]
    by simp
  then show ?thesis by simp
qed

subsection \<open>Counting occurrences after a replacement\<close>

text \<open>
  Patterns \<open>p\<close>, \<open>q\<close> and a replacement \<open>r\<close> of the shape above. Whether \<open>q\<close>
  matches at the head of a copy of \<open>p\<close> is the truth value \<open>a\<close>, at the head of a copy
  of \<open>r\<close> it is \<open>b\<close>. Every replaced occurrence of \<open>p\<close> takes \<open>a\<close> occurrences
  of \<open>q\<close> away and brings \<open>b\<close> new ones; nothing else changes the count.
\<close>

lemma occurrences_replace:
  assumes p: "p = h # tp" and q: "q = h # tq" and r: "r = h # tr"
    and tp: "h \<notin> set tp" and tq: "h \<notin> set tq" and tr: "h \<notin> set tr"
    and qp: "\<And>X. prefix q (p @ X) = a"
    and qr: "\<And>X. prefix q (r @ X) = b"
  shows "occurrences q (replace p r s) + (if a then 1 else 0) * occurrences p s
       = occurrences q s + (if b then 1 else 0) * occurrences p s"
  unfolding p q r
proof (induction "h # tp" "h # tr" s rule: replace.induct)
  case 1
  show ?case by simp
next
  case (2 c s)
  let ?p = "h # tp" and ?q = "h # tq" and ?r = "h # tr"
  note qp' = qp [unfolded p q] and qr' = qr [unfolded q r]
  have ne: "?p \<noteq> []" by simp
  show ?case
  proof (cases "prefix ?p (c # s)")
    case True
    define t where "t = drop (length ?p) (c # s)"
    have s: "c # s = ?p @ t"
      unfolding t_def using True by (rule prefix_split)
    have IH: "occurrences ?q (replace ?p ?r t) + (if a then 1 else 0) * occurrences ?p t
       = occurrences ?q t + (if b then 1 else 0) * occurrences ?p t"
      unfolding t_def by (rule 2(2) [OF ne True])
    have rep: "replace ?p ?r (c # s) = ?r @ replace ?p ?r t"
      unfolding t_def using True by simp
    have o1: "occurrences ?q (?r @ replace ?p ?r t)
       = (if b then 1 else 0) + occurrences ?q (replace ?p ?r t)"
      using occurrences_block [OF tr, of tq "replace ?p ?r t"] qr' by simp
    have o2: "occurrences ?q (?p @ t) = (if a then 1 else 0) + occurrences ?q t"
      using occurrences_block [OF tp, of tq t] qp' by simp
    have o3: "occurrences ?p (?p @ t) = 1 + occurrences ?p t"
      using occurrences_block [OF tp, of tp t] by simp
    show ?thesis
      unfolding rep unfolding s o1 o2 o3 using IH by (simp split: if_splits)
  next
    case False
    have IH: "occurrences ?q (replace ?p ?r s) + (if a then 1 else 0) * occurrences ?p s
       = occurrences ?q s + (if b then 1 else 0) * occurrences ?p s"
      by (rule 2(3) [OF ne False])
    have rep: "replace ?p ?r (c # s) = c # replace ?p ?r s"
      using ne False by (rule replace_step_no)
    have pq: "prefix ?q (c # replace ?p ?r s) = prefix ?q (c # s)"
      using tq by (rule prefix_replace)
    have o1: "occurrences ?q (c # replace ?p ?r s)
       = (if prefix ?q (c # s) then 1 else 0) + occurrences ?q (replace ?p ?r s)"
      by (simp only: occurrences.simps pq)
    have o2: "occurrences ?q (c # s) = (if prefix ?q (c # s) then 1 else 0) + occurrences ?q s"
      by (simp only: occurrences.simps)
    have o3: "occurrences ?p (c # s) = occurrences ?p s"
      using False by (simp only: occurrences.simps if_False)
    show ?thesis
      unfolding rep o1 o2 o3 using IH by (simp split: if_splits)
  qed
qed

subsection \<open>Two replacements with the same replacement string\<close>

text \<open>
  When neither pattern matches at the head of a copy of the other or of the replacement, the
  two scans replace the same stretches of the input, in either order.
\<close>

lemma replace_commute:
  assumes p: "p = h # tp" and q: "q = h # tq" and r: "r = h # tr"
    and tp: "h \<notin> set tp" and tq: "h \<notin> set tq" and tr: "h \<notin> set tr"
    and qp: "\<And>X. \<not> prefix q (p @ X)"
    and pq: "\<And>X. \<not> prefix p (q @ X)"
    and qr: "\<And>X. \<not> prefix q (r @ X)"
    and pr: "\<And>X. \<not> prefix p (r @ X)"
  shows "replace q r (replace p r s) = replace p r (replace q r s)"
  unfolding p q r
proof (induction s rule: length_induct)
  case (1 s)
  let ?p = "h # tp" and ?q = "h # tq" and ?r = "h # tr"
  note qp' = qp [unfolded p q] and pq' = pq [unfolded p q]
    and qr' = qr [unfolded q r] and pr' = pr [unfolded p r]
  show ?case
  proof (cases s)
    case Nil
    then show ?thesis by simp
  next
    case (Cons c s')
    consider (P) "prefix ?p s" | (Q) "\<not> prefix ?p s" "prefix ?q s"
      | (N) "\<not> prefix ?p s" "\<not> prefix ?q s"
      by blast
    then show ?thesis
    proof cases
      case P
      define t where "t = drop (length ?p) s"
      have s: "s = ?p @ t" unfolding t_def using P by (rule prefix_split)
      have len: "length t < length s" using arg_cong [OF s, of length] by simp
      have IH: "replace ?q ?r (replace ?p ?r t) = replace ?p ?r (replace ?q ?r t)"
        using 1 len by blast
      have l: "replace ?q ?r (replace ?p ?r (?p @ t)) = ?r @ replace ?q ?r (replace ?p ?r t)"
        using replace_block [OF tr qr', of ?r "replace ?p ?r t"] by simp
      have r: "replace ?p ?r (replace ?q ?r (?p @ t)) = ?r @ replace ?p ?r (replace ?q ?r t)"
        using replace_block [OF tp qp', of ?r t] by simp
      show ?thesis by (subst (1 2) s) (simp only: l r IH)
    next
      case Q
      define t where "t = drop (length ?q) s"
      have s: "s = ?q @ t" unfolding t_def using Q(2) by (rule prefix_split)
      have len: "length t < length s" using arg_cong [OF s, of length] by simp
      have IH: "replace ?q ?r (replace ?p ?r t) = replace ?p ?r (replace ?q ?r t)"
        using 1 len by blast
      have l: "replace ?q ?r (replace ?p ?r (?q @ t)) = ?r @ replace ?q ?r (replace ?p ?r t)"
        using replace_block [OF tq pq', of ?r t] by simp
      have r: "replace ?p ?r (replace ?q ?r (?q @ t)) = ?r @ replace ?p ?r (replace ?q ?r t)"
        using replace_block [OF tr pr', of ?r "replace ?q ?r t"] by simp
      show ?thesis by (subst (1 2) s) (simp only: l r IH)
    next
      case N
      have IH: "replace ?q ?r (replace ?p ?r s') = replace ?p ?r (replace ?q ?r s')"
        using 1 Cons by simp
      have a: "\<not> prefix ?q (c # replace ?p ?r s')"
        using N Cons by (simp only: prefix_replace [OF tq, of c tp tr s'] simp_thms)
      have b: "\<not> prefix ?p (c # replace ?q ?r s')"
        using N Cons by (simp only: prefix_replace [OF tp, of c tq tr s'] simp_thms)
      have np: "?p \<noteq> []" and nq: "?q \<noteq> []" by simp_all
      have N1: "\<not> prefix ?p (c # s')" and N2: "\<not> prefix ?q (c # s')"
        using N Cons by simp_all
      have "replace ?q ?r (replace ?p ?r (c # s')) = c # replace ?q ?r (replace ?p ?r s')"
        by (simp only: replace_step_no [OF np N1] replace_step_no [OF nq a])
      moreover have "replace ?p ?r (replace ?q ?r (c # s')) = c # replace ?p ?r (replace ?q ?r s')"
        by (simp only: replace_step_no [OF nq N2] replace_step_no [OF np b])
      ultimately show ?thesis unfolding Cons using IH by simp
    qed
  qed
qed

subsection \<open>The three literals\<close>

lemma pattern_A_Cons:
  "pattern_A = 105 # [110, 100, 101, 120, 79, 102, 40, 34, 226, 8364, 34, 34, 41]"
  by (simp add: pattern_A_def ascii_def)

lemma pattern_B_Cons:
  "pattern_B = 105 # [110, 100, 101, 120, 79, 102, 40, 34, 8212, 34, 41]"
  by (simp add: pattern_B_def ascii_def)

lemma replacement_Cons:
  "replacement = 105 # [110, 100, 101, 120, 79, 102, 40, 34, 92, 117, 50, 48, 49, 52, 34, 41]"
  by (simp add: replacement_def ascii_def)

lemmas literals_Cons = pattern_A_Cons pattern_B_Cons replacement_Cons

lemma occurrences_A_replace_A:
  "occurrences pattern_A (replace pattern_A replacement s) = 0"
  using occurrences_replace [OF pattern_A_Cons pattern_A_Cons replacement_Cons, of True False s]
  by (simp add: literals_Cons)

lemma occurrences_B_replace_B:
  "occurrences pattern_B (replace pattern_B replacement s) = 0"
  using occurrences_replace [OF pattern_B_Cons pattern_B_Cons replacement_Cons, of True False s]
  by (simp add: literals_Cons)

lemma occurrences_A_replace_B:
  "occurrences pattern_A (replace pattern_B replacement s) = occurrences pattern_A s"
  using occurrences_replace [OF pattern_B_Cons pattern_A_Cons replacement_Cons, of False False s]
  by (simp add: literals_Cons)

lemma occurrences_B_replace_A:
  "occurrences pattern_B (replace pattern_A replacement s) = occurrences pattern_B s"
  using occurrences_replace [OF pattern_A_Cons pattern_B_Cons replacement_Cons, of False False s]
  by (simp add: literals_Cons)

lemma occurrences_R_replace_A:
  "occurrences replacement (replace pattern_A replacement s)
     = occurrences replacement s + occurrences pattern_A s"
  using occurrences_replace [OF pattern_A_Cons replacement_Cons replacement_Cons, of False True s]
  by (simp add: literals_Cons)

lemma occurrences_R_replace_B:
  "occurrences replacement (replace pattern_B replacement s)
     = occurrences replacement s + occurrences pattern_B s"
  using occurrences_replace [OF pattern_B_Cons replacement_Cons replacement_Cons, of False True s]
  by (simp add: literals_Cons)

lemma occurrences_A_fix_content: "occurrences pattern_A (fix_content s) = 0"
  by (simp add: fix_content_def occurrences_A_replace_B occurrences_A_replace_A)

lemma occurrences_B_fix_content: "occurrences pattern_B (fix_content s) = 0"
  by (simp add: fix_content_def occurrences_B_replace_B)

lemma fix_content_none:
  "occurrences pattern_A s = 0 \<Longrightarrow> occurrences pattern_B s = 0 \<Longrightarrow> fix_content s = s"
  by (simp add: fix_content_def replace_none)



section \<open>Text mode and the run\<close>

subsection \<open>Line ends\<close>

text \<open>A replacement brings in no character that is not in the input or in the new string.\<close>

lemma set_replace: "set (replace p r s) \<subseteq> set s \<union> set r"
proof (induction p r s rule: replace.induct)
  case (1 old new)
  show ?case by auto
next
  case (2 old new c s)
  have "set (drop (length old) (c # s)) \<subseteq> set (c # s)"
    by (rule set_drop_subset)
  with 2 show ?case by (auto split: if_splits)
qed

lemma replace_single_gone: "c \<notin> set r \<Longrightarrow> c \<notin> set (replace [c] r s)"
  by (induction s) auto

text \<open>The text read holds no carriage return.\<close>

lemma universal_newlines_no_cr: "13 \<notin> set (universal_newlines s)"
  unfolding universal_newlines_def by (rule replace_single_gone) simp

lemma data_no_cr: "13 \<notin> set (data f)"
  unfolding data_def by (rule universal_newlines_no_cr)

text \<open>A text without a carriage return is read as it is stored.\<close>

lemma replace_absent_head: "h \<notin> set s \<Longrightarrow> replace (h # tp) r s = s"
  using replace_skip [of h s tp r "[]"] by simp

lemma universal_newlines_id: "13 \<notin> set s \<Longrightarrow> universal_newlines s = s"
  by (simp add: universal_newlines_def replace_absent_head)

text \<open>What was written in text mode is read back as the string that was written.\<close>

lemma crlf_read_back: "13 \<notin> set s \<Longrightarrow> replace [13, 10] [10] (replace [10] [13, 10] s) = s"
  by (induction s) auto

lemma read_back: "13 \<notin> set s \<Longrightarrow> universal_newlines (write_newlines pf s) = s"
proof (cases pf)
  case Posix
  assume "13 \<notin> set s"
  then show ?thesis using Posix by (simp add: write_newlines_def universal_newlines_id)
next
  case Windows
  assume a: "13 \<notin> set s"
  have "universal_newlines (replace [10] [13, 10] s) = replace [13] [10] s"
    unfolding universal_newlines_def using a by (simp add: crlf_read_back)
  also have "\<dots> = s" using a by (rule replace_absent_head)
  finally show ?thesis using Windows by (simp add: write_newlines_def)
qed

lemma fix_content_no_cr: "13 \<notin> set s \<Longrightarrow> 13 \<notin> set (fix_content s)"
proof -
  assume a: "13 \<notin> set s"
  have r: "13 \<notin> set replacement" by (simp add: replacement_Cons)
  have "13 \<notin> set (replace pattern_A replacement s)"
    using set_replace [of pattern_A replacement s] a r by blast
  then have "13 \<notin> set (replace pattern_B replacement (replace pattern_A replacement s))"
    using set_replace [of pattern_B replacement "replace pattern_A replacement s"] r by blast
  then show ?thesis by (simp add: fix_content_def)
qed

lemma data_written:
  "data (f\<lparr>raw := write_newlines pf (fix_content (data f))\<rparr>) = fix_content (data f)"
  using read_back [OF fix_content_no_cr [OF data_no_cr [of f]], of pf]
  by (simp add: data_def [of "f\<lparr>raw := write_newlines pf (fix_content (data f))\<rparr>"])

subsection \<open>The run\<close>

lemma main_read_error: "read_text w target = Inl e \<Longrightarrow> main w = (Inl e, w)"
  by (auto simp: main_def read_text_def read_file_def split: option.splits if_splits)

lemma main_success:
  assumes "files w target = Some f" and "readable f" and "writable f"
  shows "main w =
    (Inr (), w\<lparr>files := (files w)(target \<mapsto>
                  f\<lparr>raw := write_newlines (platform w) (fix_content (data f))\<rparr>),
               stdout := stdout w @ message @ [10],
               opened := opened w @ [(target, ''r'', ''utf-8''), (target, ''w'', ''utf-8'')]\<rparr>)"
  using assms by (simp add: main_def read_file_def write_file_def print_def)

lemma main_not_writable:
  assumes "files w target = Some f" and "readable f" and "\<not> writable f"
  shows "main w = (Inl PermissionError, w\<lparr>opened := opened w @ [(target, ''r'', ''utf-8'')]\<rparr>)"
  using assms by (simp add: main_def read_file_def write_file_def)

lemma main_not_readable:
  assumes "files w target = Some f" and "\<not> readable f"
  shows "main w = (Inl PermissionError, w)"
  using assms by (simp add: main_def read_file_def)

lemma main_missing:
  assumes "files w target = None"
  shows "main w = (Inl FileNotFoundError, w)"
  using assms by (simp add: main_def read_file_def)

lemma main_successD:
  assumes "fst (main w) = Inr ()"
  shows "\<exists>f. files w target = Some f \<and> readable f \<and> writable f"
proof (cases "files w target")
  case None
  then show ?thesis using assms main_missing [OF None] by simp
next
  case (Some f)
  show ?thesis
  proof (cases "readable f")
    case False
    then show ?thesis using assms main_not_readable [OF Some] by simp
  next
    case True
    then show ?thesis using assms Some main_not_writable [OF Some True] by (cases "writable f") auto
  qed
qed

lemma main_files_other: "p \<noteq> target \<Longrightarrow> files (snd (main w)) p = files w p"
  by (auto simp: main_def read_file_def write_file_def print_def
      split: option.splits if_splits)

section \<open>The claims of the specification\<close>

text \<open>
  Claim C1. The content that a successful run writes back is the content it read, with every
  occurrence of pattern A replaced first and every occurrence of pattern B replaced in the
  intermediate string, both by the same replacement.
\<close>

theorem written_content:
  assumes "files w target = Some f" and "fst (main w) = Inr ()"
  shows "map_option data (files (snd (main w)) target)
       = Some (replace pattern_B replacement (replace pattern_A replacement (data f)))"
proof -
  obtain g where g: "files w target = Some g" "readable g" "writable g"
    using main_successD [OF assms(2)] by blast
  have "g = f" using g(1) assms(1) by simp
  then show ?thesis
    using main_success [OF g] data_written [where f = f and pf = "platform w"]
    by (simp add: fix_content_def)
qed

theorem written_content_witness:
  "files (busy_world (scenario_1_input @ 10 # scenario_2_input)) target
     = Some \<lparr>raw = scenario_1_input @ 10 # scenario_2_input,
             readable = True, writable = True\<rparr>
   \<and> fst (main (busy_world (scenario_1_input @ 10 # scenario_2_input))) = Inr ()
   \<and> map_option data
       (files (snd (main (busy_world (scenario_1_input @ 10 # scenario_2_input)))) target)
     = Some (scenario_1_output @ 10 # scenario_2_output)"
proof -
  let ?s = "scenario_1_input @ 10 # scenario_2_input"
  let ?f = "\<lparr>raw = ?s, readable = True, writable = True\<rparr>"
  have h1: "files (busy_world ?s) target = Some ?f"
    by (simp add: busy_world_def target_def)
  have h2: "fst (main (busy_world ?s)) = Inr ()"
    using main_success [OF h1] by simp
  have "13 \<notin> set ?s"
    by (simp add: scenario_1_input_def scenario_2_input_def ascii_def)
  then have d: "data ?f = ?s"
    by (simp add: data_def universal_newlines_id)
  have e: "replace pattern_B replacement (replace pattern_A replacement ?s)
         = scenario_1_output @ 10 # scenario_2_output"
    by (simp add: literals_Cons scenario_1_input_def scenario_2_input_def
        scenario_1_output_def scenario_2_output_def ascii_def)
  show ?thesis
    using h1 h2 written_content [OF h1 h2] by (simp only: d e simp_thms)
qed

text \<open>
  Claim C2, as the specification states it: an input with \<open>N1\<close> occurrences of pattern A
  and \<open>N2\<close> occurrences of pattern B gives an output with exactly \<open>N1 + N2\<close> occurrences
  of the replacement string. A line that was patched before is an input on which this fails:
  it holds neither pattern, and its one occurrence of the replacement string stays.
\<close>

theorem replacement_count_counterexample:
  "occurrences pattern_A scenario_1_output + occurrences pattern_B scenario_1_output = 0
   \<and> occurrences replacement (fix_content scenario_1_output) = 1"
  by (simp add: fix_content_def literals_Cons scenario_1_output_def ascii_def)

text \<open>
  Claim C2, amended: the output holds as many occurrences of the replacement string as the
  input held of the replacement string, of pattern A and of pattern B together, and no
  occurrence of pattern A or of pattern B.
\<close>

theorem occurrences_fix_content:
  "occurrences replacement (fix_content C)
     = occurrences replacement C + occurrences pattern_A C + occurrences pattern_B C
   \<and> occurrences pattern_A (fix_content C) = 0
   \<and> occurrences pattern_B (fix_content C) = 0"
  by (simp add: fix_content_def occurrences_R_replace_B occurrences_R_replace_A
      occurrences_B_replace_A occurrences_B_replace_B occurrences_A_replace_B
      occurrences_A_replace_A)
text \<open>
  Claim C3, as the specification states it: a content with no occurrence of either pattern
  comes out exactly as it went in, byte for byte. A file whose one line ends in carriage
  return and line feed is an input on which this fails on POSIX: it holds neither pattern,
  the run succeeds, and the file ends in a line feed alone afterwards.
\<close>

theorem no_pattern_line_end_counterexample:
  "occurrences pattern_A (scenario_3_input @ [13, 10]) = 0
   \<and> occurrences pattern_B (scenario_3_input @ [13, 10]) = 0
   \<and> map_option raw (files (plain_world (scenario_3_input @ [13, 10])) target)
     = Some (scenario_3_input @ [13, 10])
   \<and> fst (main (plain_world (scenario_3_input @ [13, 10]))) = Inr ()
   \<and> map_option raw (files (snd (main (plain_world (scenario_3_input @ [13, 10])))) target)
     = Some (scenario_3_input @ [10])
   \<and> scenario_3_input @ [10] \<noteq> scenario_3_input @ [13, 10]"
proof -
  let ?s = "scenario_3_input @ [13, 10]"
  let ?f = "\<lparr>raw = ?s, readable = True, writable = True\<rparr>"
  have o: "occurrences pattern_A ?s = 0" "occurrences pattern_B ?s = 0"
    by (simp_all add: literals_Cons scenario_3_input_def ascii_def)
  have h: "files (plain_world ?s) target = Some ?f"
    by (simp add: plain_world_def)
  have d: "data ?f = scenario_3_input @ [10]"
    by (simp add: data_def universal_newlines_def scenario_3_input_def ascii_def)
  have f: "fix_content (scenario_3_input @ [10]) = scenario_3_input @ [10]"
    by (simp add: fix_content_def literals_Cons scenario_3_input_def ascii_def)
  have p: "platform (plain_world ?s) = Posix"
    by (simp add: plain_world_def)
  show ?thesis
    using o h main_success [OF h] by (simp add: d f p write_newlines_def)
qed

text \<open>
  Claim C3, amended: for a content with no occurrence of pattern A and none of pattern B,
  the string written back is the string read, and so is the text of the file afterwards; the
  file itself is left exactly as it was when its line ends are already those that text mode
  writes on the platform, which on POSIX means that it holds no carriage return.
\<close>

theorem no_pattern_no_change:
  assumes "occurrences pattern_A C = 0" and "occurrences pattern_B C = 0"
  shows "fix_content C = C
       \<and> (files w target = Some f \<and> data f = C \<and> fst (main w) = Inr ()
            \<longrightarrow> map_option data (files (snd (main w)) target) = Some C)
       \<and> (files w target = Some f \<and> data f = C \<and> fst (main w) = Inr ()
            \<and> write_newlines (platform w) C = raw f
            \<longrightarrow> files (snd (main w)) = files w)
       \<and> (files w target = Some f \<and> data f = C \<and> fst (main w) = Inr ()
            \<and> platform w = Posix \<and> 13 \<notin> set (raw f)
            \<longrightarrow> files (snd (main w)) = files w)"
proof -
  have fc: "fix_content C = C"
    using assms by (rule fix_content_none)
  have run: "snd (main w) =
      w\<lparr>files := (files w)(target \<mapsto> f\<lparr>raw := write_newlines (platform w) C\<rparr>),
        stdout := stdout w @ message @ [10],
        opened := opened w @ [(target, ''r'', ''utf-8''), (target, ''w'', ''utf-8'')]\<rparr>"
    if a: "files w target = Some f" and b: "data f = C" and c: "fst (main w) = Inr ()"
  proof -
    obtain g where g: "files w target = Some g" "readable g" "writable g"
      using main_successD [OF c] by blast
    have "g = f" using g(1) a by simp
    then show ?thesis
      using main_success [OF g] b fc by simp
  qed
  have same_text: "map_option data (files (snd (main w)) target) = Some C"
    if "files w target = Some f" and "data f = C" and "fst (main w) = Inr ()"
    using run [OF that] data_written [where f = f and pf = "platform w"] that(2) fc by simp
  have same: "files (snd (main w)) = files w"
    if "files w target = Some f" and "data f = C" and "fst (main w) = Inr ()"
      and "write_newlines (platform w) C = raw f"
    using run [OF that(1,2,3)] that(1,4) by (simp add: map_upd_triv)
  have posix: "write_newlines (platform w) C = raw f"
    if "data f = C" and "platform w = Posix" and "13 \<notin> set (raw f)"
    using that by (simp add: write_newlines_def data_def universal_newlines_id)
  show ?thesis
    using fc same_text same posix by blast
qed

theorem no_pattern_no_change_witness:
  "occurrences pattern_A (scenario_3_input @ [10]) = 0
   \<and> occurrences pattern_B (scenario_3_input @ [10]) = 0
   \<and> files (plain_world (scenario_3_input @ [10])) target
     = Some \<lparr>raw = scenario_3_input @ [10], readable = True, writable = True\<rparr>
   \<and> data \<lparr>raw = scenario_3_input @ [10], readable = True, writable = True\<rparr>
     = scenario_3_input @ [10]
   \<and> fst (main (plain_world (scenario_3_input @ [10]))) = Inr ()
   \<and> platform (plain_world (scenario_3_input @ [10])) = Posix
   \<and> 13 \<notin> set (scenario_3_input @ [10])
   \<and> write_newlines Posix (scenario_3_input @ [10]) = scenario_3_input @ [10]
   \<and> fix_content (scenario_3_input @ [10]) = scenario_3_input @ [10]
   \<and> map_option data (files (snd (main (plain_world (scenario_3_input @ [10])))) target)
     = Some (scenario_3_input @ [10])
   \<and> files (snd (main (plain_world (scenario_3_input @ [10]))))
     = files (plain_world (scenario_3_input @ [10]))"
proof -
  let ?s = "scenario_3_input @ [10]"
  let ?f = "\<lparr>raw = ?s, readable = True, writable = True\<rparr>"
  have h1: "occurrences pattern_A ?s = 0"
    by (simp add: literals_Cons scenario_3_input_def ascii_def)
  have h2: "occurrences pattern_B ?s = 0"
    by (simp add: literals_Cons scenario_3_input_def ascii_def)
  have h3: "files (plain_world ?s) target = Some ?f"
    by (simp add: plain_world_def)
  have h4: "13 \<notin> set ?s"
    by (simp add: scenario_3_input_def ascii_def)
  have h5: "data ?f = ?s"
    using h4 by (simp add: data_def universal_newlines_id)
  have h6: "fst (main (plain_world ?s)) = Inr ()"
    using main_success [OF h3] by simp
  have h7: "platform (plain_world ?s) = Posix"
    by (simp add: plain_world_def)
  have h8: "write_newlines Posix ?s = ?s"
    by (simp add: write_newlines_def)
  have h9: "raw ?f = ?s"
    by simp
  show ?thesis
    using h1 h2 h3 h4 h5 h6 h7 h8 h9
      no_pattern_no_change [OF h1 h2, of "plain_world ?s" ?f]
    by simp
qed

text \<open>
  Claim C4. The two substitutions together are idempotent: a second application changes
  nothing.
\<close>

theorem fix_content_idempotent: "fix_content (fix_content C) = fix_content C"
  using occurrences_A_fix_content [of C] occurrences_B_fix_content [of C]
  by (rule fix_content_none)

text \<open>
  Claim C5. The two example lines of the specification become the stated lines. The six
  characters of the escape are written out; no em-dash is left in the result.
\<close>

theorem concrete_scenarios:
  "fix_content scenario_1_input = scenario_1_output
   \<and> fix_content scenario_2_input = scenario_2_output
   \<and> scenario_1_output
       = ascii ''if (line.indexOf('' @ [34, 92, 117, 50, 48, 49, 52, 34] @ ascii '')  >= 0)''
   \<and> scenario_2_output
       = ascii ''int idx = text.indexOf('' @ [34, 92, 117, 50, 48, 49, 52, 34] @ ascii '');''
   \<and> 8212 \<notin> set (fix_content scenario_1_input)
   \<and> 8212 \<notin> set (fix_content scenario_2_input)"
  by (simp add: fix_content_def literals_Cons scenario_1_input_def scenario_1_output_def
      scenario_2_input_def scenario_2_output_def ascii_def)

text \<open>
  Claim C6. When the target path does not exist or may not be read, the run ends with the
  error of the read step, and the world is as it was: no file created, truncated or changed,
  nothing printed.
\<close>

theorem unreadable_target_no_write:
  assumes "files w target = None \<or> (\<exists>f. files w target = Some f \<and> \<not> readable f)"
  shows "\<exists>e. read_text w target = Inl e \<and> main w = (Inl e, w)"
proof -
  obtain e where "read_text w target = Inl e"
    using assms by (auto simp: read_text_def read_file_def)
  then show ?thesis
    using main_read_error by blast
qed

theorem unreadable_target_no_write_witness:
  "files empty_world target = None
   \<and> main empty_world = (Inl FileNotFoundError, empty_world)
   \<and> (\<exists>f. files locked_world target = Some f \<and> \<not> readable f)
   \<and> main locked_world = (Inl PermissionError, locked_world)"
proof -
  have h1: "files empty_world target = None"
    by (simp add: empty_world_def)
  have h2: "\<exists>f. files locked_world target = Some f \<and> \<not> readable f"
    by (simp add: locked_world_def)
  have r1: "read_text empty_world target = Inl FileNotFoundError"
    by (simp add: read_text_def read_file_def empty_world_def)
  have r2: "read_text locked_world target = Inl PermissionError"
    by (simp add: read_text_def read_file_def locked_world_def)
  show ?thesis
    using h1 h2 r1 r2
      unreadable_target_no_write [of empty_world, OF disjI1, OF h1]
      unreadable_target_no_write [of locked_world, OF disjI2, OF h2]
    by auto
qed

text \<open>
  Claim C7. A successful run prints exactly one line, the fixed confirmation string followed
  by the newline that ends it, and nothing else.
\<close>

theorem success_prints_one_line:
  assumes "fst (main w) = Inr ()"
  shows "stdout (snd (main w)) = stdout w @ ascii ''Fixed encoding issues in Main.java'' @ [10]
       \<and> 10 \<notin> set (ascii ''Fixed encoding issues in Main.java'')"
proof -
  obtain f where f: "files w target = Some f" "readable f" "writable f"
    using main_successD [OF assms] by blast
  show ?thesis
    using main_success [OF f] by (simp add: message_def) (simp add: ascii_def)
qed

theorem success_prints_one_line_witness:
  "fst (main (busy_world scenario_2_input)) = Inr ()
   \<and> stdout (snd (main (busy_world scenario_2_input)))
     = ascii ''building'' @ [10] @ ascii ''Fixed encoding issues in Main.java'' @ [10]"
proof -
  have h1: "files (busy_world scenario_2_input) target
      = Some \<lparr>raw = scenario_2_input, readable = True, writable = True\<rparr>"
    by (simp add: busy_world_def target_def)
  have h2: "fst (main (busy_world scenario_2_input)) = Inr ()"
    using main_success [OF h1] by simp
  show ?thesis
    using h2 success_prints_one_line [OF h2] by (simp add: busy_world_def)
qed
text \<open>
  Claim C8. Every run works on the one fixed path, and both opens are given the encoding
  \<^verbatim>\<open>utf-8\<close>. What a run does is decided by the file at that path: it fails at the
  read step when the file is missing or may not be read, at the write step when it may not be
  written, and succeeds otherwise. The opens that succeed are the read open of that path and
  then the write open of the same path, and no other. After a successful run the file at
  that path holds the text it held with both substitutions applied, written in text mode. No
  other path is changed by any run.
\<close>

theorem only_target_touched:
  assumes "p \<noteq> ''src/main/java/converter/Main.java''"
  shows "files (snd (main w)) p = files w p
       \<and> fst (main w)
         = (case files w ''src/main/java/converter/Main.java'' of
              None \<Rightarrow> Inl FileNotFoundError
            | Some f \<Rightarrow> if readable f \<and> writable f then Inr () else Inl PermissionError)
       \<and> opened (snd (main w))
         = opened w @
           (case files w ''src/main/java/converter/Main.java'' of
              None \<Rightarrow> []
            | Some f \<Rightarrow>
                if readable f
                then (''src/main/java/converter/Main.java'', ''r'', ''utf-8'') #
                     (if writable f
                      then [(''src/main/java/converter/Main.java'', ''w'', ''utf-8'')]
                      else [])
                else [])
       \<and> files (snd (main w)) ''src/main/java/converter/Main.java''
         = (case files w ''src/main/java/converter/Main.java'' of
              None \<Rightarrow> None
            | Some f \<Rightarrow>
                if readable f \<and> writable f
                then Some (f\<lparr>raw := write_newlines (platform w) (fix_content (data f))\<rparr>)
                else Some f)"
proof -
  have p: "p \<noteq> target" using assms by (simp add: target_def)
  have 1: "files (snd (main w)) p = files w p"
    using p by (rule main_files_other)
  show ?thesis
  proof (cases "files w target")
    case None
    show ?thesis
      using 1 None main_missing [OF None] by (simp add: target_def)
  next
    case (Some f)
    show ?thesis
    proof (cases "readable f")
      case False
      show ?thesis
        using 1 Some False main_not_readable [OF Some False] by (simp add: target_def)
    next
      case r: True
      show ?thesis
      proof (cases "writable f")
        case False
        show ?thesis
          using 1 Some r False main_not_writable [OF Some r False] by (simp add: target_def)
      next
        case True
        show ?thesis
          using 1 Some r True main_success [OF Some r True] by (simp add: target_def)
      qed
    qed
  qed
qed

theorem only_target_touched_witness:
  "''pom.xml'' \<noteq> ''src/main/java/converter/Main.java''
   \<and> files (snd (main (busy_world scenario_1_input))) ''pom.xml''
     = Some \<lparr>raw = ascii ''<project/>'', readable = True, writable = False\<rparr>
   \<and> fst (main (busy_world scenario_1_input)) = Inr ()
   \<and> opened (snd (main (busy_world scenario_1_input)))
     = [(''pom.xml'', ''r'', ''utf-8''),
        (''src/main/java/converter/Main.java'', ''r'', ''utf-8''),
        (''src/main/java/converter/Main.java'', ''w'', ''utf-8'')]
   \<and> files (snd (main (busy_world scenario_1_input))) ''src/main/java/converter/Main.java''
     = Some \<lparr>raw = scenario_1_output, readable = True, writable = True\<rparr>"
proof -
  let ?T = "''src/main/java/converter/Main.java''"
  let ?f = "\<lparr>raw = scenario_1_input, readable = True, writable = True\<rparr>"
  have h1: "''pom.xml'' \<noteq> ?T"
    by simp
  have t: "files (busy_world scenario_1_input) ?T = Some ?f"
    by (simp add: busy_world_def target_def)
  have o: "files (busy_world scenario_1_input) ''pom.xml''
     = Some \<lparr>raw = ascii ''<project/>'', readable = True, writable = False\<rparr>"
    by (simp add: busy_world_def target_def)
  have l: "opened (busy_world scenario_1_input) = [(''pom.xml'', ''r'', ''utf-8'')]"
    by (simp add: busy_world_def)
  have "13 \<notin> set scenario_1_input"
    by (simp add: scenario_1_input_def ascii_def)
  then have d: "data ?f = scenario_1_input"
    by (simp add: data_def universal_newlines_id)
  have f: "fix_content scenario_1_input = scenario_1_output"
    by (simp add: fix_content_def literals_Cons scenario_1_input_def scenario_1_output_def
        ascii_def)
  have n: "write_newlines (platform (busy_world scenario_1_input)) scenario_1_output
      = scenario_1_output"
    by (simp add: busy_world_def write_newlines_def scenario_1_output_def ascii_def)
  show ?thesis
    using h1 only_target_touched [OF h1, of "busy_world scenario_1_input"]
    by (simp add: t o l d f n)
qed

text \<open>
  Claim C9. The two substitutions commute: pattern A first and pattern B second gives the
  same string as pattern B first and pattern A second.
\<close>

theorem substitutions_commute:
  "replace pattern_B replacement (replace pattern_A replacement C)
   = replace pattern_A replacement (replace pattern_B replacement C)"
  by (rule replace_commute [OF pattern_A_Cons pattern_B_Cons replacement_Cons])
    (simp_all add: literals_Cons)





end
